theory Spec2Isabelle
  imports Complex_Main "HOL-Library.Sublist"
begin

section \<open>Data model\<close>

text \<open>
  The notebook works on numpy arrays of floating-point numbers. Coordinates, confidences
  and IoU values are modelled as real numbers; integer class ids and track ids as
  \<open>int\<close>. A box is one row \<open>(x1, y1, x2, y2)\<close> of an \<open>xyxy\<close> array.
\<close>

datatype py_error = IndexError | ValueError | AttributeError | KeyError

type_synonym box = "real \<times> real \<times> real \<times> real"

text \<open>\<open>STrack\<close> of the tracker: only the two attributes the notebook reads.\<close>

record STrack =
  tlbr :: box
  track_id :: int

text \<open>
  \<open>class Detections\<close>: three parallel arrays and \<open>tracker_id\<close>, which the
  constructor sets to \<open>None\<close> and \<open>process_frame\<close> later replaces by an array of
  optional ids.
\<close>

record Detections =
  xyxy :: "box list"
  confidence :: "real list"
  class_id :: "int list"
  tracker_id :: "int option list option"

definition Detections_init :: "box list \<Rightarrow> real list \<Rightarrow> int list \<Rightarrow> Detections" where
  "Detections_init b c k =
     \<lparr>xyxy = b, confidence = c, class_id = k, tracker_id = None\<rparr>"

section \<open>IoU matcher\<close>

text \<open>
  Modelled from the spec: \<open>box_iou_batch\<close> is imported from the package
  \<open>onemetric.cv.utils.iou\<close>, whose code is not part of the sources. The definitions
  below follow section 4.1 of the specification: intersection area
  \<open>max(0, min(x2a,x2b) - max(x1a,x1b)) * max(0, min(y2a,y2b) - max(y1a,y1b))\<close>, union area
  \<open>area(A) + area(B) - intersection\<close>, and IoU \<open>= intersection / union\<close>, defined as
  \<open>0\<close> when the union is \<open>0\<close>.
\<close>

fun box_area :: "box \<Rightarrow> real" where
  "box_area (x1, y1, x2, y2) = (x2 - x1) * (y2 - y1)"

fun intersection_area :: "box \<Rightarrow> box \<Rightarrow> real" where
  "intersection_area (x1a, y1a, x2a, y2a) (x1b, y1b, x2b, y2b) =
     max 0 (min x2a x2b - max x1a x1b) * max 0 (min y2a y2b - max y1a y1b)"

definition union_area :: "box \<Rightarrow> box \<Rightarrow> real" where
  "union_area a b = box_area a + box_area b - intersection_area a b"

definition iou :: "box \<Rightarrow> box \<Rightarrow> real" where
  "iou a b = (if union_area a b = 0 then 0 else intersection_area a b / union_area a b)"

text \<open>
  The entries of a float array as far as the notebook tells them apart: a number, or
  \<open>NaN\<close>, the result of the float division \<open>0 / 0\<close>.
\<close>

datatype npfloat = Num real | NaN

text \<open>
  Modelled from the spec: the batch form that the notebook calls, one row per box of the
  first collection, one column per box of the second. An entry is the quotient
  \<open>intersection / union\<close> of section 4.1 as the imported function computes it, by a
  division of float arrays without a guard: where the union is zero (the intersection is
  then zero as well) the entry is \<open>0 / 0 = NaN\<close>, not the value \<open>0\<close> that the
  specification defines there.
\<close>

definition iou_entry :: "box \<Rightarrow> box \<Rightarrow> npfloat" where
  "iou_entry a b =
     (if union_area a b = 0 then NaN else Num (intersection_area a b / union_area a b))"

definition box_iou_batch :: "box list \<Rightarrow> box list \<Rightarrow> npfloat list list" where
  "box_iou_batch as bs = map (\<lambda>a. map (iou_entry a) bs) as"

text \<open>The box invariant of the data model: \<open>x1 < x2\<close> and \<open>y1 < y2\<close>.\<close>

fun valid_box :: "box \<Rightarrow> bool" where
  "valid_box (x1, y1, x2, y2) = (x1 < x2 \<and> y1 < y2)"

text \<open>Two boxes do not overlap when they are separated along the x axis or along the y axis.\<close>

fun non_overlapping :: "box \<Rightarrow> box \<Rightarrow> bool" where
  "non_overlapping (x1a, y1a, x2a, y2a) (x1b, y1b, x2b, y2b) =
     (x2a \<le> x1b \<or> x2b \<le> x1a \<or> y2a \<le> y1b \<or> y2b \<le> y1a)"

section \<open>Numpy and dict primitives used by the notebook\<close>

text \<open>
  \<open>arr[mask]\<close> with a boolean mask: numpy raises \<open>IndexError\<close> when the mask's length
  differs from the array's, and otherwise keeps the entries whose mask bit is set, in
  their order.
\<close>

definition np_mask :: "'a list \<Rightarrow> bool list \<Rightarrow> py_error + 'a list" where
  "np_mask arr msk =
     (if length msk = length arr then Inr (map fst (filter snd (zip arr msk)))
      else Inl IndexError)"

text \<open>\<open>np.any(xyxy)\<close>: some coordinate of some row is non-zero.\<close>

fun box_nonzero :: "box \<Rightarrow> bool" where
  "box_nonzero (x1, y1, x2, y2) = (x1 \<noteq> 0 \<or> y1 \<noteq> 0 \<or> x2 \<noteq> 0 \<or> y2 \<noteq> 0)"

definition np_any :: "box list \<Rightarrow> bool" where
  "np_any bs = list_ex box_nonzero bs"

text \<open>
  \<open>np.argmax\<close> of one row: the index of the first maximal entry, where \<open>NaN\<close>
  counts as the maximum, so that the first \<open>NaN\<close> of a row is its argmax;
  \<open>ValueError\<close> on an empty row. \<open>argmax_from xs i best bv\<close> scans the rest
  \<open>xs\<close> of the row, whose first entry has index \<open>i\<close>, with the best index and
  value so far.
\<close>

fun argmax_from :: "npfloat list \<Rightarrow> nat \<Rightarrow> nat \<Rightarrow> real \<Rightarrow> nat" where
  "argmax_from [] i best bv = best"
| "argmax_from (NaN # xs) i best bv = i"
| "argmax_from (Num x # xs) i best bv =
     (if bv < x then argmax_from xs (Suc i) i x else argmax_from xs (Suc i) best bv)"

fun np_argmax :: "npfloat list \<Rightarrow> py_error + nat" where
  "np_argmax [] = Inl ValueError"
| "np_argmax (NaN # xs) = Inr 0"
| "np_argmax (Num x # xs) = Inr (argmax_from xs 1 0 x)"

text \<open>\<open>np.argmax(iou, axis=1)\<close>: the argmax of every row.\<close>

fun argmax_axis1 :: "npfloat list list \<Rightarrow> py_error + nat list" where
  "argmax_axis1 [] = Inr []"
| "argmax_axis1 (row # rows) =
     (case np_argmax row of
        Inl e \<Rightarrow> Inl e
      | Inr j \<Rightarrow> (case argmax_axis1 rows of Inl e \<Rightarrow> Inl e | Inr js \<Rightarrow> Inr (j # js)))"

text \<open>\<open>m[i, j]\<close> on a matrix given by its rows.\<close>

definition np_get2 :: "npfloat list list \<Rightarrow> nat \<Rightarrow> nat \<Rightarrow> py_error + npfloat" where
  "np_get2 m i j =
     (if i < length m \<and> j < length (m ! i) then Inr (m ! i ! j) else Inl IndexError)"

text \<open>\<open>x != 0\<close> on a float: \<open>NaN\<close> differs from every number, so the test is true for it.\<close>

fun np_ne_zero :: "npfloat \<Rightarrow> bool" where
  "np_ne_zero (Num v) = (v \<noteq> 0)"
| "np_ne_zero NaN = True"

text \<open>
  A Python \<open>dict\<close> as an association list in insertion order: \<open>d.get(k, default)\<close>
  and \<open>d[k] = v\<close>, which keeps the position of a key already present and appends a new
  key at the end.
\<close>

definition dict_get :: "('k \<times> 'v) list \<Rightarrow> 'k \<Rightarrow> 'v \<Rightarrow> 'v" where
  "dict_get d k dflt = (case map_of d k of None \<Rightarrow> dflt | Some v \<Rightarrow> v)"

fun dict_set :: "('k \<times> 'v) list \<Rightarrow> 'k \<Rightarrow> 'v \<Rightarrow> ('k \<times> 'v) list" where
  "dict_set [] k v = [(k, v)]"
| "dict_set ((k', v') # d) k v = (if k' = k then (k, v) # d else (k', v') # dict_set d k v)"

section \<open>The Detections class\<close>

text \<open>
  \<open>Detections.filter(mask, inplace)\<close>. The result is the returned object (\<open>None\<close>
  in the in-place mode, which returns nothing) together with the state of \<open>self\<close>
  after the call. An exception of a mask lookup is the value \<open>Inl\<close>.
\<close>

definition Detections_filter ::
  "Detections \<Rightarrow> bool list \<Rightarrow> bool \<Rightarrow> py_error + (Detections option \<times> Detections)" where
  "Detections_filter self msk inplace =
     (if inplace then
        (case np_mask (xyxy self) msk of Inl e \<Rightarrow> Inl e | Inr b \<Rightarrow>
         case np_mask (confidence self) msk of Inl e \<Rightarrow> Inl e | Inr c \<Rightarrow>
         case np_mask (class_id self) msk of Inl e \<Rightarrow> Inl e | Inr k \<Rightarrow>
         case tracker_id self of
           None \<Rightarrow> Inr (None, self\<lparr>xyxy := b, confidence := c, class_id := k\<rparr>)
         | Some t \<Rightarrow>
             (case np_mask t msk of Inl e \<Rightarrow> Inl e | Inr t' \<Rightarrow>
                Inr (None, self\<lparr>xyxy := b, confidence := c, class_id := k,
                                 tracker_id := Some t'\<rparr>)))
      else
        (case np_mask (xyxy self) msk of Inl e \<Rightarrow> Inl e | Inr b \<Rightarrow>
         case np_mask (confidence self) msk of Inl e \<Rightarrow> Inl e | Inr c \<Rightarrow>
         case np_mask (class_id self) msk of Inl e \<Rightarrow> Inl e | Inr k \<Rightarrow>
           Inr (Some (Detections_init b c k), self)))"

text \<open>
  \<open>Detections.__iter__\<close>, as the list of tuples it yields. Reading
  \<open>self.tracker_id.size\<close> while \<open>tracker_id\<close> is \<open>None\<close> raises
  \<open>AttributeError\<close>; \<open>zip\<close> stops at the shortest of its arguments.
\<close>

definition Detections_iter ::
  "Detections \<Rightarrow> py_error + (box \<times> real \<times> int \<times> int option) list" where
  "Detections_iter self =
     (case tracker_id self of
        None \<Rightarrow> Inl AttributeError
      | Some t \<Rightarrow>
          Inr (zip (xyxy self) (zip (confidence self) (zip (class_id self)
                 (if 0 < length t then t else replicate (length (xyxy self)) None)))))"

section \<open>Tracking utilities\<close>

text \<open>\<open>detections2boxes\<close>: \<open>np.hstack\<close> of the boxes and the confidence column.\<close>

definition detections2boxes :: "Detections \<Rightarrow> py_error + (box \<times> real) list" where
  "detections2boxes detections =
     (if length (xyxy detections) = length (confidence detections)
      then Inr (zip (xyxy detections) (confidence detections)) else Inl ValueError)"

definition tracks2boxes :: "STrack list \<Rightarrow> box list" where
  "tracks2boxes tracks = map tlbr tracks"

text \<open>
  The loop of \<open>match_detections_with_tracks\<close> over
  \<open>enumerate(track2detection)\<close>, with the list \<open>tracker_ids\<close> as its state.
\<close>

fun assign_tracker_ids ::
  "(nat \<times> nat) list \<Rightarrow> npfloat list list \<Rightarrow> STrack list \<Rightarrow> int option list
     \<Rightarrow> py_error + int option list" where
  "assign_tracker_ids [] iou_m tracks tracker_ids = Inr tracker_ids"
| "assign_tracker_ids ((tracker_index, detection_index) # rest) iou_m tracks tracker_ids =
     (case np_get2 iou_m tracker_index detection_index of
        Inl e \<Rightarrow> Inl e
      | Inr v \<Rightarrow>
          if np_ne_zero v then
            (if detection_index < length tracker_ids \<and> tracker_index < length tracks
             then assign_tracker_ids rest iou_m tracks
                    (tracker_ids[detection_index := Some (track_id (tracks ! tracker_index))])
             else Inl IndexError)
          else assign_tracker_ids rest iou_m tracks tracker_ids)"

definition match_detections_with_tracks ::
  "Detections \<Rightarrow> STrack list \<Rightarrow> py_error + int option list" where
  "match_detections_with_tracks detections tracks =
     (if \<not> np_any (xyxy detections) \<or> length tracks = 0
      then Inr (replicate (length (xyxy detections)) None)
      else
        (let tracks_boxes = tracks2boxes tracks;
             iou_m = box_iou_batch tracks_boxes (xyxy detections)
         in case argmax_axis1 iou_m of
              Inl e \<Rightarrow> Inl e
            | Inr track2detection \<Rightarrow>
                assign_tracker_ids (enumerate 0 track2detection) iou_m tracks
                  (replicate (length (xyxy detections)) None)))"

section \<open>Processing a frame\<close>

text \<open>
  The annotation loop of \<open>process_frame\<close>, with the dict \<open>class_counts\<close> and the
  list \<open>chicken_parts\<close> as its state. Drawing on the frame is left out.
\<close>

fun annotate_loop ::
  "(int \<times> string) list \<Rightarrow> (box \<times> real \<times> int \<times> int option) list
     \<Rightarrow> (string \<times> nat) list \<Rightarrow> string list
     \<Rightarrow> py_error + ((string \<times> nat) list \<times> string list)" where
  "annotate_loop names [] class_counts chicken_parts = Inr (class_counts, chicken_parts)"
| "annotate_loop names ((b, conf, cid, tid) # rest) class_counts chicken_parts =
     (case map_of names cid of
        None \<Rightarrow> Inl KeyError
      | Some class_name \<Rightarrow>
          annotate_loop names rest
            (dict_set class_counts class_name (dict_get class_counts class_name 0 + 1))
            (chicken_parts @ [class_name]))"

text \<open>
  \<open>process_frame\<close> from the point where the detector's output \<open>pred[0]\<close> is
  available: \<open>det\<close> holds its rows after \<open>scale_coords\<close> and rounding, each a box,
  a confidence and a class id. \<open>names\<close> is \<open>CLASS_NAMES_DICT\<close>, whose keys are
  the class ids of interest. The tracker is a collaborator with a state of its own:
  \<open>update\<close> maps its state and the rows handed to it to the tracks it returns and
  its next state. The result is \<open>(class_counts, chicken_parts)\<close> and the tracker's
  state after the frame.
\<close>

definition process_frame ::
  "(int \<times> string) list \<Rightarrow> ('t \<Rightarrow> (box \<times> real) list \<Rightarrow> STrack list \<times> 't) \<Rightarrow> 't
     \<Rightarrow> (box \<times> real \<times> int) list
     \<Rightarrow> py_error + (((string \<times> nat) list \<times> string list) \<times> 't)" where
  "process_frame names update st det =
     (if 0 < length det then
        (let detections0 =
               Detections_init (map fst det) (map (fst \<circ> snd) det) (map (snd \<circ> snd) det);
             CLASS_ID = map fst names;
             msk = map (\<lambda>c. c \<in> set CLASS_ID) (class_id detections0)
         in case Detections_filter detections0 msk True of
              Inl e \<Rightarrow> Inl e
            | Inr (_, detections) \<Rightarrow>
               (case detections2boxes detections of
                  Inl e \<Rightarrow> Inl e
                | Inr output_results \<Rightarrow>
                   (case update st output_results of
                      (tracks, st') \<Rightarrow>
                       (case match_detections_with_tracks detections tracks of
                          Inl e \<Rightarrow> Inl e
                        | Inr tids \<Rightarrow>
                           (case Detections_iter (detections\<lparr>tracker_id := Some tids\<rparr>) of
                              Inl e \<Rightarrow> Inl e
                            | Inr tuples \<Rightarrow>
                               (case annotate_loop names tuples [] [] of
                                  Inl e \<Rightarrow> Inl e
                                | Inr res \<Rightarrow> Inr (res, st')))))))
      else Inr (([], []), st))"

section \<open>Notions used to state the properties\<close>

text \<open>The indices that a boolean mask selects.\<close>

definition selected :: "bool list \<Rightarrow> nat set" where
  "selected msk = {i. i < length msk \<and> msk ! i}"




text \<open>
  A step \<open>(tracker_index, detection_index)\<close> of the assignment loop writes to slot \<open>j\<close>
  when it targets \<open>j\<close> and its IoU entry passes the test \<open>!= 0\<close>.
\<close>

definition writes_to :: "npfloat list list \<Rightarrow> nat \<Rightarrow> nat \<times> nat \<Rightarrow> bool" where
  "writes_to m j p = (snd p = j \<and> np_ne_zero (m ! fst p ! snd p))"

text \<open>
  The raw detections that remain after the allow-list filter of \<open>process_frame\<close>
  (those whose class id is a key of \<open>CLASS_NAMES_DICT\<close>), their class names in
  detection order, and the rows \<open>(box, confidence)\<close> they make for the tracker.
\<close>

definition allowed ::
  "(int \<times> string) list \<Rightarrow> (box \<times> real \<times> int) list \<Rightarrow> (box \<times> real \<times> int) list" where
  "allowed names det = filter (\<lambda>r. snd (snd r) \<in> fst ` set names) det"

definition class_names :: "(int \<times> string) list \<Rightarrow> (box \<times> real \<times> int) list \<Rightarrow> string list" where
  "class_names names det = map (\<lambda>r. the (map_of names (snd (snd r)))) (allowed names det)"

definition tracker_input ::
  "(int \<times> string) list \<Rightarrow> (box \<times> real \<times> int) list \<Rightarrow> (box \<times> real) list" where
  "tracker_input names det = map (\<lambda>r. (fst r, fst (snd r))) (allowed names det)"

text \<open>
  ClassCounts as the specification words it: the distinct entries of a sequence in the
  order of their first occurrence, and the mapping from each class name to the number of
  its occurrences, with the keys in first-seen order.
\<close>

fun first_seen :: "'a list \<Rightarrow> 'a list" where
  "first_seen [] = []"
| "first_seen (x # xs) = x # filter (\<lambda>y. y \<noteq> x) (first_seen xs)"

definition count_names :: "string list \<Rightarrow> (string \<times> nat) list" where
  "count_names ns = map (\<lambda>n. (n, count_list ns n)) (first_seen ns)"

text \<open>
  A tracker collaborator that returns no tracks and whose state is the list of the inputs
  it has been called with, oldest first: it makes the calls into the tracker observable.
\<close>

definition recording_tracker ::
  "(box \<times> real) list list \<Rightarrow> (box \<times> real) list \<Rightarrow> STrack list \<times> (box \<times> real) list list" where
  "recording_tracker calls rows = ([], calls @ [rows])"

section \<open>Properties of the IoU matcher\<close>

lemma intersection_area_nonneg: "0 \<le> intersection_area a b"
  by (cases a; cases b) simp

lemma intersection_area_commute: "intersection_area a b = intersection_area b a"
  by (cases a; cases b) (simp add: min.commute max.commute)

lemma union_area_commute: "union_area a b = union_area b a"
  by (simp add: union_area_def intersection_area_commute)

lemma iou_commute: "iou a b = iou b a"
  by (simp add: iou_def union_area_commute intersection_area_commute)

lemma intersection_area_self: "valid_box a \<Longrightarrow> intersection_area a a = box_area a"
  by (cases a) (simp add: max_def)

lemma box_area_pos: "valid_box a \<Longrightarrow> 0 < box_area a"
  by (cases a) simp

lemma iou_self: "valid_box a \<Longrightarrow> iou a a = 1"
  using box_area_pos [of a] by (simp add: iou_def union_area_def intersection_area_self)

lemma intersection_area_disjoint: "non_overlapping a b \<Longrightarrow> intersection_area a b = 0"
  by (cases a; cases b) (auto simp: max_def min_def)

lemma iou_disjoint: "non_overlapping a b \<Longrightarrow> iou a b = 0"
  by (simp add: iou_def intersection_area_disjoint)

text \<open>A positive intersection lies inside each of the two boxes, so its area is at most theirs.\<close>

lemma intersection_area_le_left:
  assumes "0 < intersection_area a b"
  shows "intersection_area a b \<le> box_area a"
proof -
  obtain x1a y1a x2a y2a where a: "a = (x1a, y1a, x2a, y2a)" by (cases a)
  obtain x1b y1b x2b y2b where b: "b = (x1b, y1b, x2b, y2b)" by (cases b)
  define w where "w = min x2a x2b - max x1a x1b"
  define h where "h = min y2a y2b - max y1a y1b"
  have prod: "0 < max 0 w * max 0 h" using assms by (simp add: a b w_def h_def)
  have w: "0 < w"
  proof (rule ccontr)
    assume "\<not> 0 < w" then have "max 0 w = 0" by simp
    with prod show False by simp
  qed
  have h: "0 < h"
  proof (rule ccontr)
    assume "\<not> 0 < h" then have "max 0 h = 0" by simp
    with prod show False by simp
  qed
  have "w \<le> x2a - x1a" "h \<le> y2a - y1a" by (simp_all add: w_def h_def)
  then have "w * h \<le> (x2a - x1a) * (y2a - y1a)"
    using w h by (intro mult_mono) simp_all
  then show ?thesis using w h by (simp add: a b w_def h_def max_def)
qed



text \<open>The worked examples of the specification.\<close>

lemma iou_example_disjoint: "iou (0, 0, 10, 10) (20, 20, 30, 30) = 0"
  by (simp add: iou_def union_area_def)

lemma iou_example_identical: "iou (0, 0, 10, 10) (0, 0, 10, 10) = 1"
  by (simp add: iou_def union_area_def)

lemma iou_example_half_overlap:
  "intersection_area (0, 0, 10, 10) (5, 0, 15, 10) = 50
   \<and> union_area (0, 0, 10, 10) (5, 0, 15, 10) = 150
   \<and> iou (0, 0, 10, 10) (5, 0, 15, 10) = 1 / 3"
  by (simp add: iou_def union_area_def)

text \<open>
  Claim C8. For the IoU function of the specification (intersection area over union
  area, \<open>0\<close> when the union is \<open>0\<close>): the IoU of a valid box with itself is \<open>1\<close>;
  the IoU of two valid boxes that do not overlap is \<open>0\<close>; and the IoU of two valid
  boxes does not depend on their order.
\<close>

theorem iou_reflexive_disjoint_symmetric:
  "(valid_box a \<longrightarrow> iou a a = 1)
   \<and> (valid_box a \<and> valid_box b \<and> non_overlapping a b \<longrightarrow> iou a b = 0)
   \<and> (valid_box a \<and> valid_box b \<longrightarrow> iou a b = iou b a)"
  using iou_self [of a] iou_disjoint [of a b] iou_commute [of a b] by blast

theorem iou_reflexive_disjoint_symmetric_witness:
  "valid_box (0, 0, 10, 10) \<and> valid_box (20, 20, 30, 30)
   \<and> non_overlapping (0, 0, 10, 10) (20, 20, 30, 30)
   \<and> iou (0, 0, 10, 10) (0, 0, 10, 10) = 1
   \<and> iou (0, 0, 10, 10) (20, 20, 30, 30) = 0
   \<and> iou (0, 0, 10, 10) (20, 20, 30, 30) = iou (20, 20, 30, 30) (0, 0, 10, 10)"
  using iou_reflexive_disjoint_symmetric [of "(0, 0, 10, 10)" "(20, 20, 30, 30)"]
  by simp

section \<open>Properties of the Detections class\<close>

lemma selected_Cons: "{j. Suc j \<in> selected (m # ms)} = selected ms"
  by (auto simp: selected_def)

lemma zero_selected: "0 \<in> selected (m # ms) \<longleftrightarrow> m"
  by (auto simp: selected_def)

text \<open>
  A mask lookup keeps the entries at the selected indices, in increasing index order
  (\<open>nths\<close>), and as many of them as the mask has set bits.
\<close>

lemma mask_select_nths:
  "length msk = length xs \<Longrightarrow> map fst (filter snd (zip xs msk)) = nths xs (selected msk)"
proof (induction xs arbitrary: msk)
  case Nil
  then show ?case by simp
next
  case (Cons x xs)
  then obtain m ms where msk: "msk = m # ms" and len: "length ms = length xs"
    by (cases msk) auto
  show ?case using Cons.IH [OF len]
    by (simp add: msk nths_Cons selected_Cons zero_selected)
qed

lemma np_mask_nths:
  "length msk = length xs \<Longrightarrow> np_mask xs msk = Inr (nths xs (selected msk))"
  by (simp add: np_mask_def mask_select_nths)

lemma length_nths_selected:
  "length msk = length xs \<Longrightarrow> length (nths xs (selected msk)) = length (filter id msk)"
proof (induction xs arbitrary: msk)
  case Nil
  then show ?case by simp
next
  case (Cons x xs)
  then obtain m ms where msk: "msk = m # ms" and len: "length ms = length xs"
    by (cases msk) auto
  show ?case using Cons.IH [OF len]
    by (simp add: msk nths_Cons selected_Cons zero_selected)
qed

lemma subseq_nths_selected: "subseq (nths xs (selected msk)) xs"
  using subseq_conv_nths by blast

text \<open>
  Claim C6. When the parallel arrays of a Detections object (boxes, confidences, class
  ids, and the tracker ids when they are set) all have length \<open>n\<close>, filtering it in
  place by a mask of length \<open>n\<close> succeeds; every array becomes its entries at the
  selected indices in their original order (a subsequence of the original), so the
  arrays keep a common length (the number of set mask bits).
\<close>

theorem filter_inplace_preserves_alignment:
  assumes "length (xyxy d) = n" and "length (confidence d) = n" and "length (class_id d) = n"
    and "\<forall>t. tracker_id d = Some t \<longrightarrow> length t = n" and "length msk = n"
  shows "\<exists>d'. Detections_filter d msk True = Inr (None, d')
           \<and> xyxy d' = nths (xyxy d) (selected msk)
           \<and> confidence d' = nths (confidence d) (selected msk)
           \<and> class_id d' = nths (class_id d) (selected msk)
           \<and> tracker_id d' = map_option (\<lambda>t. nths t (selected msk)) (tracker_id d)
           \<and> subseq (xyxy d') (xyxy d) \<and> subseq (confidence d') (confidence d)
           \<and> subseq (class_id d') (class_id d)
           \<and> length (xyxy d') = length (filter id msk)
           \<and> length (confidence d') = length (xyxy d')
           \<and> length (class_id d') = length (xyxy d')
           \<and> (\<forall>t'. tracker_id d' = Some t' \<longrightarrow> length t' = length (xyxy d'))"
proof (cases "tracker_id d")
  case None
  then show ?thesis using assms
    by (simp add: Detections_filter_def np_mask_nths length_nths_selected
        subseq_nths_selected)
next
  case (Some t)
  then have "length t = n" using assms by simp
  then show ?thesis using assms Some
    by (simp add: Detections_filter_def np_mask_nths length_nths_selected
        subseq_nths_selected)
qed

theorem filter_inplace_preserves_alignment_witness:
  "Detections_filter
     \<lparr>xyxy = [(0, 0, 10, 10), (20, 20, 30, 30), (5, 0, 15, 10)],
      confidence = [9 / 10, 8 / 10, 7 / 10], class_id = [0, 1, 0],
      tracker_id = Some [Some 4, None, Some 6]\<rparr> [True, False, True] True
   = Inr (None,
     \<lparr>xyxy = [(0, 0, 10, 10), (5, 0, 15, 10)],
      confidence = [9 / 10, 7 / 10], class_id = [0, 0],
      tracker_id = Some [Some 4, Some 6]\<rparr>)"
  using filter_inplace_preserves_alignment
    [of "\<lparr>xyxy = [(0, 0, 10, 10), (20, 20, 30, 30), (5, 0, 15, 10)],
      confidence = [9 / 10, 8 / 10, 7 / 10], class_id = [0, 1, 0],
      tracker_id = Some [Some 4, None, Some 6]\<rparr>" 3 "[True, False, True]"]
  by (simp add: Detections_filter_def np_mask_def)

text \<open>
  The copy mode builds its result with the constructor, which takes no tracker ids: the
  boxes, confidences and class ids of the copy are the selected entries and \<open>self\<close> is
  unchanged, but the copy's \<open>tracker_id\<close> is always \<open>None\<close>.
\<close>

lemma filter_copy_result:
  assumes "length (xyxy d) = length msk" and "length (confidence d) = length msk"
    and "length (class_id d) = length msk"
  shows "Detections_filter d msk False =
           Inr (Some \<lparr>xyxy = nths (xyxy d) (selected msk),
                      confidence = nths (confidence d) (selected msk),
                      class_id = nths (class_id d) (selected msk),
                      tracker_id = None\<rparr>, d)"
  using assms by (simp add: Detections_filter_def np_mask_nths Detections_init_def)

text \<open>
  Claim C7 asks that a copy-mode filter also selects the tracker ids when they have been
  assigned, as the in-place mode does. On two detections with tracker ids \<open>1\<close> and
  \<open>2\<close> and the mask \<open>[True, False]\<close>, the copy has no tracker ids at all instead
  of the selected \<open>[1]\<close>.
\<close>

theorem filter_copy_drops_tracker_id:
  "Detections_filter
     \<lparr>xyxy = [(0, 0, 10, 10), (20, 20, 30, 30)], confidence = [9 / 10, 8 / 10],
      class_id = [0, 1], tracker_id = Some [Some 1, Some 2]\<rparr> [True, False] False
   = Inr (Some \<lparr>xyxy = [(0, 0, 10, 10)], confidence = [9 / 10], class_id = [0],
               tracker_id = None\<rparr>,
          \<lparr>xyxy = [(0, 0, 10, 10), (20, 20, 30, 30)], confidence = [9 / 10, 8 / 10],
           class_id = [0, 1], tracker_id = Some [Some 1, Some 2]\<rparr>)"
  by (simp add: Detections_filter_def np_mask_def Detections_init_def)

text \<open>
  Claim C10. Iterating a Detections object whose \<open>tracker_id\<close> is still \<open>None\<close>
  fails with \<open>AttributeError\<close> instead of yielding tuples with null tracker ids;
  once \<open>tracker_id\<close> holds an array, iteration yields a list of tuples.
\<close>

theorem iter_requires_tracker_id:
  "(tracker_id d = None \<longrightarrow> Detections_iter d = Inl AttributeError)
   \<and> (\<forall>t. tracker_id d = Some t \<longrightarrow> (\<exists>ys. Detections_iter d = Inr ys))"
  by (simp add: Detections_iter_def)

theorem iter_requires_tracker_id_witness:
  "tracker_id (Detections_init [(0, 0, 10, 10)] [9 / 10] [0]) = None
   \<and> Detections_iter (Detections_init [(0, 0, 10, 10)] [9 / 10] [0]) = Inl AttributeError
   \<and> Detections_iter
       ((Detections_init [(0, 0, 10, 10)] [9 / 10] [0])\<lparr>tracker_id := Some [Some 3]\<rparr>)
     = Inr [((0, 0, 10, 10), 9 / 10, 0, Some 3)]"
  using iter_requires_tracker_id [of "Detections_init [(0, 0, 10, 10)] [9 / 10] [0]"]
    iter_requires_tracker_id
      [of "(Detections_init [(0, 0, 10, 10)] [9 / 10] [0])\<lparr>tracker_id := Some [Some 3]\<rparr>"]
  by (simp add: Detections_init_def Detections_iter_def)

section \<open>Properties of the Track Associator\<close>


text \<open>
  A positive intersection makes the union positive; so a zero union has a zero
  intersection, and the quotient there is \<open>0 / 0\<close>. Two well-formed boxes always have a
  positive union.
\<close>

lemma union_area_pos_of_intersection:
  assumes "0 < intersection_area a b"
  shows "0 < union_area a b"
proof -
  have "intersection_area a b \<le> box_area a" using assms by (rule intersection_area_le_left)
  moreover have "intersection_area a b \<le> box_area b"
    using assms intersection_area_le_left [of b a] by (simp add: intersection_area_commute)
  ultimately show ?thesis using assms by (simp add: union_area_def)
qed

lemma zero_union_zero_intersection:
  assumes "union_area a b = 0"
  shows "intersection_area a b = 0"
proof (rule ccontr)
  assume "intersection_area a b \<noteq> 0"
  then have "0 < intersection_area a b" using intersection_area_nonneg [of a b] by simp
  then have "0 < union_area a b" by (rule union_area_pos_of_intersection)
  then show False using assms by simp
qed

lemma union_area_pos_valid:
  assumes "valid_box a" and "valid_box b"
  shows "0 < union_area a b"
proof (cases "0 < intersection_area a b")
  case True
  then show ?thesis by (rule union_area_pos_of_intersection)
next
  case False
  then have "intersection_area a b = 0" using intersection_area_nonneg [of a b] by simp
  then show ?thesis using box_area_pos [OF assms(1)] box_area_pos [OF assms(2)]
    by (simp add: union_area_def)
qed


lemma iou_entry_NaN: "union_area a b = 0 \<Longrightarrow> iou_entry a b = NaN \<and> iou a b = 0"
  by (simp add: iou_entry_def iou_def)

text \<open>The argmax of a non-empty row lies inside the row, also when the row holds \<open>NaN\<close>.\<close>

lemma argmax_from_less:
  "best < i \<Longrightarrow> argmax_from xs i best bv < i + length xs"
proof (induction xs i best bv rule: argmax_from.induct)
  case (1 i best bv)
  then show ?case by simp
next
  case (2 xs i best bv)
  then show ?case by simp
next
  case (3 x xs i best bv)
  then show ?case by (auto simp: less_Suc_eq)
qed

lemma np_argmax_less:
  assumes "row \<noteq> []"
  shows "\<exists>j. np_argmax row = Inr j \<and> j < length row"
proof -
  obtain x xs where row: "row = x # xs" using assms by (cases row) auto
  show ?thesis
  proof (cases x)
    case (Num v)
    have "argmax_from xs 1 0 v < 1 + length xs" by (rule argmax_from_less) simp
    then show ?thesis by (simp add: row Num)
  next
    case NaN
    then show ?thesis by (simp add: row)
  qed
qed

lemma argmax_axis1_total:
  assumes "\<forall>row \<in> set m. row \<noteq> []"
  shows "\<exists>js. argmax_axis1 m = Inr js \<and> length js = length m
            \<and> (\<forall>i < length m. np_argmax (m ! i) = Inr (js ! i) \<and> js ! i < length (m ! i))"
  using assms
proof (induction m)
  case Nil
  then show ?case by simp
next
  case (Cons row m)
  obtain j where j: "np_argmax row = Inr j" "j < length row"
    using np_argmax_less [of row] Cons.prems by auto
  obtain js where js: "argmax_axis1 m = Inr js" "length js = length m"
      "\<forall>i < length m. np_argmax (m ! i) = Inr (js ! i) \<and> js ! i < length (m ! i)"
    using Cons by auto
  have "\<forall>i < length (row # m). np_argmax ((row # m) ! i) = Inr ((j # js) ! i)
          \<and> (j # js) ! i < length ((row # m) ! i)"
    using j js by (auto simp: nth_Cons split: nat.splits)
  then show ?case using j js by simp
qed



text \<open>
  The assignment loop, for indices in range: every slot ends with the id of the last step
  that writes to it, or with its initial value when no step does.
\<close>

lemma assign_tracker_ids_result:
  assumes "\<forall>p \<in> set ps. fst p < length tracks \<and> fst p < length m
              \<and> snd p < length (m ! fst p) \<and> snd p < length ids"
  shows "\<exists>ids'. assign_tracker_ids ps m tracks ids = Inr ids' \<and> length ids' = length ids
           \<and> (\<forall>j < length ids. ids' ! j =
                 (case filter (writes_to m j) ps of
                    [] \<Rightarrow> ids ! j
                  | q # qs \<Rightarrow> Some (track_id (tracks ! fst (last (q # qs))))))"
  using assms
proof (induction ps arbitrary: ids)
  case Nil
  then show ?case by simp
next
  case (Cons p ps)
  obtain ti di where p: "p = (ti, di)" by (cases p)
  have rng: "ti < length tracks" "ti < length m" "di < length (m ! ti)" "di < length ids"
    using Cons.prems by (simp_all add: p)
  show ?case
  proof (cases "np_ne_zero (m ! ti ! di)")
    case True
    note nz = True
    define ids1 where "ids1 = ids[di := Some (track_id (tracks ! ti))]"
    have "\<forall>p \<in> set ps. fst p < length tracks \<and> fst p < length m
              \<and> snd p < length (m ! fst p) \<and> snd p < length ids1"
      using Cons.prems by (simp add: ids1_def)
    from Cons.IH [OF this] obtain ids' where
      r: "assign_tracker_ids ps m tracks ids1 = Inr ids'" "length ids' = length ids1"
        "\<forall>j < length ids1. ids' ! j =
                 (case filter (writes_to m j) ps of
                    [] \<Rightarrow> ids1 ! j
                  | q # qs \<Rightarrow> Some (track_id (tracks ! fst (last (q # qs)))))"
      by blast
    have run: "assign_tracker_ids (p # ps) m tracks ids = Inr ids'"
      using True rng r(1) by (simp add: p np_get2_def ids1_def)
    have len: "length ids' = length ids" using r(2) by (simp add: ids1_def)
    have "ids' ! j =
            (case filter (writes_to m j) (p # ps) of
               [] \<Rightarrow> ids ! j
             | q # qs \<Rightarrow> Some (track_id (tracks ! fst (last (q # qs)))))"
      if j: "j < length ids" for j
    proof (cases "di = j")
      case True
      then have wt: "writes_to m j (ti, di)"
        using nz by (simp add: writes_to_def)
      show ?thesis
        using r(3) j True rng wt by (simp add: ids1_def p split: list.splits)
    next
      case ne: False
      then have wt: "\<not> writes_to m j (ti, di)"
        by (simp add: writes_to_def)
      moreover have "ids1 ! j = ids ! j" using ne by (simp add: ids1_def)
      moreover have "length ids1 = length ids" by (simp add: ids1_def)
      ultimately show ?thesis
        using r(3) j by (simp add: p split: list.splits)
    qed
    then show ?thesis using run len by blast
  next
    case False
    have "\<forall>p \<in> set ps. fst p < length tracks \<and> fst p < length m
              \<and> snd p < length (m ! fst p) \<and> snd p < length ids"
      using Cons.prems by simp
    from Cons.IH [OF this] obtain ids' where
      r: "assign_tracker_ids ps m tracks ids = Inr ids'" "length ids' = length ids"
        "\<forall>j < length ids. ids' ! j =
                 (case filter (writes_to m j) ps of
                    [] \<Rightarrow> ids ! j
                  | q # qs \<Rightarrow> Some (track_id (tracks ! fst (last (q # qs)))))"
      by blast
    have "assign_tracker_ids (p # ps) m tracks ids = Inr ids'"
      using False rng r(1) by (simp add: p np_get2_def)
    moreover have "filter (writes_to m j) (p # ps) = filter (writes_to m j) ps" for j
      using False by (simp add: p writes_to_def)
    ultimately show ?thesis using r by simp
  qed
qed



lemma enumerate_as_map: "enumerate 0 js = map (\<lambda>i. (i, js ! i)) [0..<length js]"
  by (rule nth_equalityI) (simp_all add: nth_enumerate_eq)


lemma np_any_nonempty: "np_any bs \<Longrightarrow> bs \<noteq> []"
  by (auto simp: np_any_def)

text \<open>
  Past the guard, the code runs without an error: every row of the IoU matrix has an
  argmax inside the row, and the loop leaves in each slot the id of the last step that
  writes to it.
\<close>

lemma match_runs:
  assumes any: "np_any (xyxy d)" and tr: "tracks \<noteq> []"
  shows "\<exists>js ids'. length js = length tracks
           \<and> (\<forall>i < length tracks.
                 np_argmax (map (iou_entry (tlbr (tracks ! i))) (xyxy d)) = Inr (js ! i)
                 \<and> js ! i < length (xyxy d))
           \<and> match_detections_with_tracks d tracks = Inr ids'
           \<and> length ids' = length (xyxy d)
           \<and> (\<forall>j < length (xyxy d). ids' ! j =
                 (case filter (writes_to (box_iou_batch (tracks2boxes tracks) (xyxy d)) j)
                         (enumerate 0 js) of
                    [] \<Rightarrow> None
                  | q # qs \<Rightarrow> Some (track_id (tracks ! fst (last (q # qs))))))"
proof -
  define dets where "dets = xyxy d"
  define m where "m = box_iou_batch (tracks2boxes tracks) dets"
  have ne: "dets \<noteq> []" using any np_any_nonempty by (simp add: dets_def)
  have lm: "length m = length tracks" by (simp add: m_def box_iou_batch_def tracks2boxes_def)
  have row: "m ! i = map (iou_entry (tlbr (tracks ! i))) dets" if "i < length tracks" for i
    using that by (simp add: m_def box_iou_batch_def tracks2boxes_def)
  have "\<forall>r \<in> set m. r \<noteq> []" using ne by (auto simp: m_def box_iou_batch_def)
  from argmax_axis1_total [OF this] obtain js where
    js: "argmax_axis1 m = Inr js" "length js = length m"
      "\<forall>i < length m. np_argmax (m ! i) = Inr (js ! i) \<and> js ! i < length (m ! i)"
    by blast
  have arg: "np_argmax (map (iou_entry (tlbr (tracks ! i))) dets) = Inr (js ! i)
               \<and> js ! i < length dets" if "i < length tracks" for i
    using js(3) that lm row by auto
  define ids0 :: "int option list" where "ids0 = replicate (length dets) None"
  have "\<forall>p \<in> set (enumerate 0 js). fst p < length tracks \<and> fst p < length m
              \<and> snd p < length (m ! fst p) \<and> snd p < length ids0"
    using js(2) lm arg row by (auto simp: enumerate_as_map ids0_def)
  from assign_tracker_ids_result [OF this] obtain ids' where
    r: "assign_tracker_ids (enumerate 0 js) m tracks ids0 = Inr ids'"
      "length ids' = length ids0"
      "\<forall>j < length ids0. ids' ! j =
                 (case filter (writes_to m j) (enumerate 0 js) of
                    [] \<Rightarrow> ids0 ! j
                  | q # qs \<Rightarrow> Some (track_id (tracks ! fst (last (q # qs)))))"
    by blast
  have run: "match_detections_with_tracks d tracks = Inr ids'"
    using any tr js(1) r(1)
    by (simp add: match_detections_with_tracks_def dets_def [symmetric] m_def [symmetric]
        ids0_def [symmetric] Let_def)
  have "\<forall>j < length dets. ids' ! j =
                 (case filter (writes_to m j) (enumerate 0 js) of
                    [] \<Rightarrow> None
                  | q # qs \<Rightarrow> Some (track_id (tracks ! fst (last (q # qs)))))"
    using r(3) by (simp add: ids0_def split: list.splits)
  then show ?thesis
    using js(2) lm arg run r(2)
    unfolding m_def dets_def ids0_def by (intro exI [of _ js] exI [of _ ids']) simp
qed

lemma match_returns:
  "\<exists>ids. match_detections_with_tracks d tracks = Inr ids \<and> length ids = length (xyxy d)"
proof (cases "np_any (xyxy d) \<and> tracks \<noteq> []")
  case True
  then have "np_any (xyxy d)" and "tracks \<noteq> []" by simp_all
  from match_runs [OF this] obtain js ids' where
    "match_detections_with_tracks d tracks = Inr ids'" and "length ids' = length (xyxy d)"
    by (elim exE conjE)
  then show ?thesis by simp
next
  case False
  then show ?thesis by (auto simp: match_detections_with_tracks_def)
qed






lemma valid_boxes_nonzero_unions:
  assumes "\<forall>t \<in> set tracks. valid_box (tlbr t)" and "\<forall>b \<in> set dets. valid_box b"
  shows "\<forall>t \<in> set tracks. \<forall>b \<in> set dets. union_area (tlbr t) b \<noteq> 0"
proof (intro ballI)
  fix t b assume "t \<in> set tracks" and "b \<in> set dets"
  then have "0 < union_area (tlbr t) b" using assms by (simp add: union_area_pos_valid)
  then show "union_area (tlbr t) b \<noteq> 0" by simp
qed



text \<open>
  Last writer wins: tracks \<open>1\<close> and \<open>2\<close> both have the first detection as their best
  column (IoU \<open>1\<close> and \<open>1/3\<close>); the later row overwrites the earlier one although its
  IoU is lower. Track \<open>3\<close> overlaps nothing and assigns nothing.
\<close>

lemma match_last_writer_wins_example:
  "match_detections_with_tracks
     (Detections_init [(0, 0, 10, 10), (20, 20, 30, 30)] [9 / 10, 8 / 10] [0, 1])
     [\<lparr>tlbr = (0, 0, 10, 10), track_id = 1\<rparr>, \<lparr>tlbr = (5, 0, 15, 10), track_id = 2\<rparr>,
      \<lparr>tlbr = (60, 60, 70, 70), track_id = 3\<rparr>] = Inr [Some 2, None]"
  by (simp add: Detections_init_def match_detections_with_tracks_def np_any_def
      box_iou_batch_def tracks2boxes_def iou_entry_def union_area_def np_get2_def)

text \<open>
  Claim C2. When there are no detections or no tracks,
  \<open>match_detections_with_tracks\<close> returns a list of nulls with one entry per
  detection; and on every input it returns a list of that length, never an error.
\<close>

theorem match_without_detections_or_tracks:
  "(xyxy d = [] \<or> tracks = [] \<longrightarrow>
      match_detections_with_tracks d tracks = Inr (replicate (length (xyxy d)) None))
   \<and> (\<exists>ids. match_detections_with_tracks d tracks = Inr ids \<and> length ids = length (xyxy d))"
proof (cases "np_any (xyxy d) \<and> tracks \<noteq> []")
  case True
  moreover have "xyxy d \<noteq> []" using True np_any_nonempty by blast
  ultimately show ?thesis using match_returns [of d tracks] by simp
next
  case False
  then show ?thesis by (auto simp: match_detections_with_tracks_def)
qed

theorem match_without_detections_or_tracks_witness:
  "match_detections_with_tracks
     (Detections_init [(0, 0, 10, 10), (20, 20, 30, 30)] [9 / 10, 8 / 10] [0, 1]) []
     = Inr [None, None]
   \<and> match_detections_with_tracks (Detections_init [] [] [])
       [\<lparr>tlbr = (0, 0, 10, 10), track_id = 1\<rparr>] = Inr []"
  using match_without_detections_or_tracks
      [of "Detections_init [(0, 0, 10, 10), (20, 20, 30, 30)] [9 / 10, 8 / 10] [0, 1]" "[]"]
    match_without_detections_or_tracks
      [of "Detections_init [] [] []" "[\<lparr>tlbr = (0, 0, 10, 10), track_id = 1\<rparr>]"]
  by (simp add: Detections_init_def)

text \<open>
  Claim C9. When every coordinate of the detection boxes is zero, the guard
  \<open>np.any(detections.xyxy)\<close> is false, so \<open>match_detections_with_tracks\<close>
  returns all nulls without associating, whatever the tracks are; this happens for a
  non-empty detection set and a non-empty track list.
\<close>

theorem match_skips_all_zero_boxes:
  assumes "\<forall>b \<in> set (xyxy d). b = (0, 0, 0, 0)"
  shows "\<not> np_any (xyxy d)
         \<and> match_detections_with_tracks d tracks = Inr (replicate (length (xyxy d)) None)"
proof -
  have "\<not> np_any (xyxy d)" using assms by (auto simp: np_any_def list_ex_iff)
  then show ?thesis by (simp add: match_detections_with_tracks_def)
qed

theorem match_skips_all_zero_boxes_witness:
  "xyxy (Detections_init [(0, 0, 0, 0)] [9 / 10] [0]) \<noteq> []
   \<and> [\<lparr>tlbr = (0, 0, 10, 10), track_id = 7\<rparr>] \<noteq> []
   \<and> \<not> np_any (xyxy (Detections_init [(0, 0, 0, 0)] [9 / 10] [0]))
   \<and> match_detections_with_tracks (Detections_init [(0, 0, 0, 0)] [9 / 10] [0])
        [\<lparr>tlbr = (0, 0, 10, 10), track_id = 7\<rparr>] = Inr [None]"
  using match_skips_all_zero_boxes
      [of "Detections_init [(0, 0, 0, 0)] [9 / 10] [0]"
          "[\<lparr>tlbr = (0, 0, 10, 10), track_id = 7\<rparr>]"]
  by (simp add: Detections_init_def)

section \<open>Properties of the Frame Processor\<close>

lemma set_first_seen: "set (first_seen xs) = set xs"
  by (induction xs) auto

lemma distinct_first_seen: "distinct (first_seen xs)"
  by (induction xs) (auto simp: set_first_seen)

text \<open>
  \<open>first_seen\<close> keeps the first occurrence of every entry: it is \<open>remdups\<close>,
  which keeps the last occurrences, taken on the reversed list.
\<close>

lemma remdups_snoc: "remdups (ys @ [x]) = filter (\<lambda>y. y \<noteq> x) (remdups ys) @ [x]"
  by (induction ys) auto

lemma first_seen_remdups: "first_seen xs = rev (remdups (rev xs))"
  by (induction xs) (simp_all add: remdups_snoc rev_filter)

lemma map_of_dict_set: "map_of (dict_set d k v) = (map_of d)(k \<mapsto> v)"
  by (induction d k v rule: dict_set.induct) auto

lemma keys_dict_set:
  "map fst (dict_set d k v) = (if k \<in> fst ` set d then map fst d else map fst d @ [k])"
  by (induction d k v rule: dict_set.induct) (auto simp: image_iff)

lemma annotate_loop_invariant:
  assumes "\<forall>t \<in> set tuples. fst (snd (snd t)) \<in> fst ` set names"
  shows "\<exists>cc'. annotate_loop names tuples cc cp
            = Inr (cc', cp @ map (\<lambda>t. the (map_of names (fst (snd (snd t))))) tuples)
          \<and> map fst cc' = map fst cc @ filter (\<lambda>n. n \<notin> fst ` set cc)
                (first_seen (map (\<lambda>t. the (map_of names (fst (snd (snd t))))) tuples))
          \<and> (\<forall>n. map_of cc' n =
                (if n \<in> set (map (\<lambda>t. the (map_of names (fst (snd (snd t))))) tuples)
                 then Some (dict_get cc n 0
                        + count_list (map (\<lambda>t. the (map_of names (fst (snd (snd t))))) tuples) n)
                 else map_of cc n))"
  using assms
proof (induction tuples arbitrary: cc cp)
  case Nil
  then show ?case by simp
next
  case (Cons t tuples)
  obtain b conf cid tid where t: "t = (b, conf, cid, tid)" by (cases t)
  define nm where "nm = (\<lambda>t :: box \<times> real \<times> int \<times> int option. the (map_of names (fst (snd (snd t)))))"
  have "cid \<in> fst ` set names" using Cons.prems by (simp add: t)
  then obtain x where x: "map_of names cid = Some x"
    by (metis domD dom_map_of_conv_image_fst)
  define cc1 where "cc1 = dict_set cc x (dict_get cc x 0 + 1)"
  have rest: "\<forall>t \<in> set tuples. fst (snd (snd t)) \<in> fst ` set names" using Cons.prems by simp
  from Cons.IH [OF rest, of cc1 "cp @ [x]"] obtain cc' where
    r: "annotate_loop names tuples cc1 (cp @ [x]) = Inr (cc', (cp @ [x]) @ map nm tuples)"
      "map fst cc' = map fst cc1 @ filter (\<lambda>n. n \<notin> fst ` set cc1) (first_seen (map nm tuples))"
      "\<forall>n. map_of cc' n = (if n \<in> set (map nm tuples)
                 then Some (dict_get cc1 n 0 + count_list (map nm tuples) n) else map_of cc1 n)"
    unfolding nm_def by blast
  have nmt: "nm t = x" by (simp add: nm_def t x)
  have run: "annotate_loop names (t # tuples) cc cp = Inr (cc', cp @ map nm (t # tuples))"
    using r(1) by (simp add: t x cc1_def nmt [unfolded t])
  have keys1: "fst ` set cc1 = insert x (fst ` set cc)"
  proof -
    have "set (map fst cc1) = insert x (set (map fst cc))"
      unfolding cc1_def keys_dict_set by auto
    then show ?thesis by simp
  qed
  have keys: "map fst cc' = map fst cc @ filter (\<lambda>n. n \<notin> fst ` set cc)
                (first_seen (map nm (t # tuples)))"
  proof (cases "x \<in> fst ` set cc")
    case True
    have k: "map fst cc1 = map fst cc" using True by (simp add: cc1_def keys_dict_set)
    have "filter (\<lambda>n. n \<notin> fst ` set cc1) l
            = filter (\<lambda>n. n \<notin> fst ` set cc) (filter (\<lambda>y. y \<noteq> x) l)" for l :: "string list"
      using True by (induction l) (auto simp: keys1)
    then show ?thesis using True r(2) by (simp add: nmt k)
  next
    case False
    have k: "map fst cc1 = map fst cc @ [x]" using False by (simp add: cc1_def keys_dict_set)
    have "filter (\<lambda>n. n \<notin> fst ` set cc1) l
            = filter (\<lambda>n. n \<notin> fst ` set cc) (filter (\<lambda>y. y \<noteq> x) l)" for l :: "string list"
      by (induction l) (auto simp: keys1)
    then show ?thesis using False r(2) by (simp add: nmt k)
  qed
  have get1: "dict_get cc1 n 0 = (if n = x then dict_get cc x 0 + 1 else dict_get cc n 0)" for n
    by (simp add: cc1_def dict_get_def map_of_dict_set)
  have look1: "map_of cc1 n = (if n = x then Some (dict_get cc x 0 + 1) else map_of cc n)" for n
    by (simp add: cc1_def map_of_dict_set)
  have vals: "map_of cc' n = (if n \<in> set (map nm (t # tuples))
                 then Some (dict_get cc n 0 + count_list (map nm (t # tuples)) n)
                 else map_of cc n)" for n
    using r(3) [rule_format, of n] by (auto simp: nmt get1 look1)
  show ?case using run keys vals unfolding nm_def by blast
qed


lemma alist_from_keys:
  assumes "distinct (map fst xs)"
  shows "xs = map (\<lambda>k. (k, the (map_of xs k))) (map fst xs)"
proof -
  have "map (\<lambda>p. (fst p, the (map_of xs (fst p)))) xs = xs"
  proof (rule map_idI)
    fix p assume "p \<in> set xs"
    then have "map_of xs (fst p) = Some (snd p)" using assms by (simp add: map_of_eq_Some_iff)
    then show "(fst p, the (map_of xs (fst p))) = p" by simp
  qed
  then show ?thesis by (simp add: comp_def)
qed

lemma annotate_loop_counts:
  assumes "\<forall>t \<in> set tuples. fst (snd (snd t)) \<in> fst ` set names"
    and ns: "ns = map (\<lambda>t. the (map_of names (fst (snd (snd t))))) tuples"
  shows "annotate_loop names tuples [] [] = Inr (count_names ns, ns)"
proof -
  from annotate_loop_invariant [OF assms(1), of "[]" "[]"] obtain cc' where
    r: "annotate_loop names tuples [] [] = Inr (cc', ns)"
      "map fst cc' = first_seen ns"
      "\<forall>n. map_of cc' n = (if n \<in> set ns then Some (dict_get [] n 0 + count_list ns n) else None)"
    unfolding ns by auto
  have "distinct (map fst cc')" using r(2) by (simp add: distinct_first_seen)
  then have "cc' = map (\<lambda>k. (k, the (map_of cc' k))) (map fst cc')" by (rule alist_from_keys)
  also have "\<dots> = map (\<lambda>k. (k, count_list ns k)) (first_seen ns)"
    unfolding r(2) using r(3) by (intro map_cong) (simp_all add: set_first_seen dict_get_def)
  finally show ?thesis using r(1) by (simp add: count_names_def)
qed

lemma select_by_mask: "map fst (filter snd (zip (map f xs) (map p xs))) = map f (filter p xs)"
  by (induction xs) auto

lemma process_frame_result:
  "process_frame names update st det =
     (if det = [] then Inr (([], []), st)
      else Inr ((count_names (class_names names det), class_names names det),
                snd (update st (tracker_input names det))))"
proof (cases "det = []")
  case True
  then show ?thesis by (simp add: process_frame_def)
next
  case False
  define kept where "kept = allowed names det"
  define msk where "msk = map (\<lambda>c. c \<in> set (map fst names)) (map (snd \<circ> snd) det)"
  define d1 where "d1 = \<lparr>xyxy = map fst kept, confidence = map (fst \<circ> snd) kept,
                         class_id = map (snd \<circ> snd) kept, tracker_id = None\<rparr>"
  have msk': "msk = map (\<lambda>r. snd (snd r) \<in> fst ` set names) det"
    by (simp add: msk_def)
  have sel: "np_mask (map f det) msk = Inr (map f kept)" for f :: "box \<times> real \<times> int \<Rightarrow> 'b"
    by (simp add: np_mask_def msk' select_by_mask kept_def allowed_def)
  have flt0: "Detections_filter
               (Detections_init (map fst det) (map (fst \<circ> snd) det) (map (snd \<circ> snd) det))
               msk True = Inr (None, d1)"
    by (simp add: Detections_filter_def Detections_init_def sel d1_def)
  have m: "map (\<lambda>c. c \<in> fst ` set names)
             (class_id (Detections_init (map fst det) (map (fst \<circ> snd) det)
                          (map (snd \<circ> snd) det))) = msk"
    by (simp add: msk' Detections_init_def)
  have flt: "Detections_filter
               (Detections_init (map fst det) (map (fst \<circ> snd) det) (map (snd \<circ> snd) det))
               (map (\<lambda>c. c \<in> fst ` set names)
                  (class_id (Detections_init (map fst det) (map (fst \<circ> snd) det)
                               (map (snd \<circ> snd) det)))) True = Inr (None, d1)"
    unfolding m by (fact flt0)
  have boxes: "detections2boxes d1 = Inr (tracker_input names det)"
    by (simp add: detections2boxes_def d1_def tracker_input_def kept_def zip_map_map
        zip_same_conv_map)
  obtain tracks st' where upd: "update st (tracker_input names det) = (tracks, st')"
    by (cases "update st (tracker_input names det)")
  obtain tids where tids: "match_detections_with_tracks d1 tracks = Inr tids"
      "length tids = length kept"
    using match_returns [of d1 tracks] by (auto simp: d1_def)
  define tuples where "tuples = zip (map fst kept) (zip (map (fst \<circ> snd) kept)
                                   (zip (map (snd \<circ> snd) kept) tids))"
  have it: "Detections_iter (d1\<lparr>tracker_id := Some tids\<rparr>) = Inr tuples"
    using tids(2) by (auto simp: Detections_iter_def d1_def tuples_def)
  have cls: "map (\<lambda>t. fst (snd (snd t))) tuples = map (snd \<circ> snd) kept"
    using tids(2) unfolding tuples_def
    by (intro nth_equalityI) simp_all
  have "\<forall>t \<in> set tuples. fst (snd (snd t)) \<in> fst ` set names"
  proof
    fix t assume "t \<in> set tuples"
    then have "fst (snd (snd t)) \<in> set (map (\<lambda>t. fst (snd (snd t))) tuples)" by simp
    then show "fst (snd (snd t)) \<in> fst ` set names"
      unfolding cls by (force simp: kept_def allowed_def)
  qed
  moreover have "class_names names det
                   = map (\<lambda>t. the (map_of names (fst (snd (snd t))))) tuples"
  proof -
    have "map (\<lambda>t. the (map_of names (fst (snd (snd t))))) tuples
            = map (\<lambda>c. the (map_of names c)) (map (\<lambda>t. fst (snd (snd t))) tuples)"
      by (simp add: comp_def)
    then show ?thesis unfolding cls by (simp add: class_names_def kept_def comp_def)
  qed
  ultimately have loop: "annotate_loop names tuples [] []
      = Inr (count_names (class_names names det), class_names names det)"
    by (rule annotate_loop_counts)
  have "process_frame names update st det
          = Inr ((count_names (class_names names det), class_names names det), st')"
    using False flt boxes upd tids(1) it loop
    by (simp add: process_frame_def Let_def)
  then show ?thesis using False upd by simp
qed

lemma map_of_count_names:
  "map_of (count_names ns) n = (if n \<in> set ns then Some (count_list ns n) else None)"
proof -
  have "map_of (map (\<lambda>k. (k, f k)) xs) n = (if n \<in> set xs then Some (f n) else None)"
    for f :: "string \<Rightarrow> nat" and xs
    by (induction xs) auto
  then show ?thesis by (simp add: count_names_def set_first_seen)
qed

lemma count_names_example:
  "count_names [''breast'', ''thigh'', ''breast''] = [(''breast'', 2), (''thigh'', 1)]"
  by (simp add: count_names_def)

text \<open>
  Claim C5. Whatever the tracker returns, \<open>process_frame\<close> returns as occurrence
  sequence the class names of the detections that passed the allow-list, one per
  detection in detection order, and as counts the mapping from each of these names to the
  number of its detections, with the keys in first-seen order; tracker ids play no part.
  The names \<open>breast, thigh, breast\<close> give \<open>breast: 2, thigh: 1\<close> in this order.
\<close>

theorem process_frame_class_counts:
  "(\<exists>st'. process_frame names update st det
            = Inr ((count_names (class_names names det), class_names names det), st'))
   \<and> length (class_names names det) = length (allowed names det)
   \<and> map fst (count_names ns) = first_seen ns
   \<and> map_of (count_names ns) n = (if n \<in> set ns then Some (count_list ns n) else None)
   \<and> count_names [''breast'', ''thigh'', ''breast''] = [(''breast'', 2), (''thigh'', 1)]"
proof -
  have "\<exists>st'. process_frame names update st det
            = Inr ((count_names (class_names names det), class_names names det), st')"
    by (simp add: process_frame_result class_names_def allowed_def count_names_def)
  moreover have "map fst (count_names ns) = first_seen ns"
    by (simp add: count_names_def comp_def)
  ultimately show ?thesis
    by (simp add: map_of_count_names count_names_example class_names_def)
qed

theorem process_frame_class_counts_witness:
  "process_frame [(0, ''breast''), (1, ''thigh'')] recording_tracker []
     [((0, 0, 10, 10), 9 / 10, 0), ((20, 20, 30, 30), 8 / 10, 1), ((5, 0, 15, 10), 7 / 10, 0)]
   = Inr (([(''breast'', 2), (''thigh'', 1)], [''breast'', ''thigh'', ''breast'']),
          [[((0, 0, 10, 10), 9 / 10), ((20, 20, 30, 30), 8 / 10), ((5, 0, 15, 10), 7 / 10)]])"
  using process_frame_class_counts [of "[(0, ''breast''), (1, ''thigh'')]" recording_tracker "[]"
     "[((0, 0, 10, 10), 9 / 10, 0), ((20, 20, 30, 30), 8 / 10, 1), ((5, 0, 15, 10), 7 / 10, 0)]"
     "[''breast'', ''thigh'', ''breast'']" "''breast''"]
  by (simp add: process_frame_def Detections_init_def Detections_filter_def np_mask_def
      detections2boxes_def recording_tracker_def match_detections_with_tracks_def
      Detections_iter_def dict_get_def class_names_def allowed_def count_names_def)

text \<open>
  Claim C4, as amended. When no detection remains after the allow-list filter,
  \<open>process_frame\<close> returns empty counts and an empty occurrence sequence. It calls
  the tracker, with an empty input, exactly when the frame had raw detections; on a frame
  without raw detections the tracker is not called and its state is unchanged.
\<close>

theorem process_frame_nothing_after_filtering:
  assumes "allowed names det = []"
  shows "process_frame names update st det
           = Inr (([], []), if det = [] then st else snd (update st []))"
  using assms
  by (simp add: process_frame_result class_names_def tracker_input_def count_names_def)

theorem process_frame_nothing_after_filtering_witness:
  "allowed [(0, ''breast'')] [] = []
   \<and> process_frame [(0, ''breast'')] recording_tracker [] [] = Inr (([], []), [])
   \<and> allowed [(0, ''breast'')] [((0, 0, 10, 10), 9 / 10, 5)] = []
   \<and> process_frame [(0, ''breast'')] recording_tracker [] [((0, 0, 10, 10), 9 / 10, 5)]
       = Inr (([], []), [[]])"
  using process_frame_nothing_after_filtering [of "[(0, ''breast'')]" "[]" recording_tracker "[]"]
    process_frame_nothing_after_filtering
      [of "[(0, ''breast'')]" "[((0, 0, 10, 10), 9 / 10, 5)]" recording_tracker "[]"]
  by (simp add: allowed_def recording_tracker_def)

text \<open>
  Claim C4 as stated fails on a frame without raw detections: nothing remains after
  filtering, and the recording tracker's list of calls is still empty afterwards, not the
  one call with an empty input that the claim asks for.
\<close>

theorem process_frame_no_raw_detections_no_tracker_call:
  "allowed [(0, ''breast''), (1, ''thigh'')] [] = []
   \<and> process_frame [(0, ''breast''), (1, ''thigh'')] recording_tracker [] []
       = Inr (([], []), [])
   \<and> process_frame [(0, ''breast''), (1, ''thigh'')] recording_tracker [] []
       \<noteq> Inr (([], []), [[]])"
  by (simp add: allowed_def process_frame_def)

text \<open>
  Claim C3, as amended. On a frame with raw detections, \<open>process_frame\<close> narrows
  them by the class allow-list only: the rows handed to the tracker, and the detections
  counted, are the raw detections whose class id is a key of the class-name dict, in
  order. The box coordinates play no part in the filter, so a detection whose box violates
  \<open>x1 < x2\<close> and \<open>y1 < y2\<close> is passed through when its class is allowed; no error
  is raised.
\<close>

theorem process_frame_keeps_allowed_boxes:
  assumes "det \<noteq> []"
  shows "process_frame names update st det
           = Inr ((count_names (class_names names det), class_names names det),
                  snd (update st (tracker_input names det)))
         \<and> tracker_input names det
             = map (\<lambda>r. (fst r, fst (snd r))) (filter (\<lambda>r. snd (snd r) \<in> fst ` set names) det)"
  using assms by (simp add: process_frame_result tracker_input_def allowed_def)

theorem process_frame_keeps_allowed_boxes_witness:
  "[((5, 5, 5, 9), 9 / 10, 0), ((0, 0, 10, 10), 8 / 10, 7), ((30, 30, 20, 20), 7 / 10, 0)] \<noteq> []
   \<and> process_frame [(0, ''breast'')] recording_tracker []
        [((5, 5, 5, 9), 9 / 10, 0), ((0, 0, 10, 10), 8 / 10, 7), ((30, 30, 20, 20), 7 / 10, 0)]
       = Inr (([(''breast'', 2)], [''breast'', ''breast'']),
              [[((5, 5, 5, 9), 9 / 10), ((30, 30, 20, 20), 7 / 10)]])"
  using process_frame_keeps_allowed_boxes [of
      "[((5, 5, 5, 9), 9 / 10, 0), ((0, 0, 10, 10), 8 / 10, 7), ((30, 30, 20, 20), 7 / 10, 0)]"
      "[(0, ''breast'')]" recording_tracker "[]"]
  by (simp add: tracker_input_def class_names_def count_names_def allowed_def
      recording_tracker_def)

text \<open>
  Claim C3 as stated fails on a frame whose only detection has the box \<open>(5, 5, 5, 9)\<close>,
  which violates \<open>x1 < x2\<close>: the detection is counted and its box is handed to the
  tracker.
\<close>

theorem process_frame_passes_malformed_box:
  "\<not> valid_box (5, 5, 5, 9)
   \<and> process_frame [(0, ''breast'')] recording_tracker [] [((5, 5, 5, 9), 9 / 10, 0)]
       = Inr (([(''breast'', 1)], [''breast'']), [[((5, 5, 5, 9), 9 / 10)]])"
  by (simp add: process_frame_def Detections_init_def Detections_filter_def np_mask_def
      detections2boxes_def recording_tracker_def match_detections_with_tracks_def
      Detections_iter_def dict_get_def)

end
